theory Spec2Isabelle
  imports Main "HOL-Library.Word"
begin

unbundle bit_operations_syntax

section \<open>sht2: a content-addressed blob store (main.go)\<close>

text \<open>
  The development follows \<^verbatim>\<open>main.go\<close>: the identifier scheme (\<^verbatim>\<open>idRe\<close>,
  \<^verbatim>\<open>objPath\<close>), the usage walk (\<^verbatim>\<open>diskUsageBytes\<close>), the upload
  handler (\<^verbatim>\<open>upload\<close>) and the retrieval handler (\<^verbatim>\<open>serveByID\<close>).
  Go strings are byte strings and are modelled as \<^typ>\<open>string\<close>; \<^verbatim>\<open>int64\<close> is a
  64-bit word read with \<^const>\<open>sint\<close>, so that \<^verbatim>\<open>+\<close> wraps as it does in Go.
\<close>

type_synonym byte = "8 word"
type_synonym int64 = "64 word"

subsection \<open>Identifier scheme\<close>

text \<open>
  \<^verbatim>\<open>base64.RawURLEncoding.EncodeToString\<close> (Go standard library): three source
  bytes give four characters of the URL-safe alphabet; a remainder of one or two bytes
  gives two or three characters; no padding character is written.
\<close>

definition encodeURL :: string where
  "encodeURL = ''ABCDEFGHIJKLMNOPQRSTUVWXYZabcdefghijklmnopqrstuvwxyz0123456789-_''"

definition sextet :: "64 word \<Rightarrow> nat \<Rightarrow> char" where
  "sextet val k = encodeURL ! unat (drop_bit k val AND 0x3F)"

fun EncodeToString :: "byte list \<Rightarrow> string" where
  "EncodeToString (a # b # c # rest) =
     (let val = push_bit 16 (ucast a) OR push_bit 8 (ucast b) OR ucast c
      in sextet val 18 # sextet val 12 # sextet val 6 # sextet val 0 # EncodeToString rest)"
| "EncodeToString [a, b] =
     (let val = push_bit 16 (ucast a) OR push_bit 8 (ucast b)
      in [sextet val 18, sextet val 12, sextet val 6])"
| "EncodeToString [a] =
     (let val = push_bit 16 (ucast a)
      in [sextet val 18, sextet val 12])"
| "EncodeToString [] = []"

text \<open>
  \<^verbatim>\<open>idRe = regexp.MustCompile(`^[A-Za-z0-9_-]{43}$`)\<close>. In Go's regexp syntax
  \<^verbatim>\<open>^\<close> and \<^verbatim>\<open>$\<close> match only at the two ends of the text, so
  \<^verbatim>\<open>idRe.MatchString\<close> holds exactly for the strings of 43 characters of the class.
\<close>

definition idChar :: "char \<Rightarrow> bool" where
  "idChar c =
     (let n = (of_char c :: nat)
      in (65 \<le> n \<and> n \<le> 90) \<or> (97 \<le> n \<and> n \<le> 122) \<or> (48 \<le> n \<and> n \<le> 57)
         \<or> n = 95 \<or> n = 45)"

definition idRe_MatchString :: "string \<Rightarrow> bool" where
  "idRe_MatchString s = (length s = 43 \<and> list_all idChar s)"

subsection \<open>Paths\<close>

text \<open>
  A path is the list of its elements below the filesystem's root directory, so the
  default storage root \<^verbatim>\<open>/home/sht2\<close> is \<open>[''home'', ''sht2'']\<close>.
  \<^verbatim>\<open>filepath.Join\<close> joins its arguments with the separator and cleans the result
  lexically: empty elements and \<^verbatim>\<open>.\<close> are dropped and \<^verbatim>\<open>..\<close> removes the
  element before it (at the top it is dropped).
\<close>

type_synonym path = "string list"

fun split_sep :: "string \<Rightarrow> string list" where
  "split_sep [] = [[]]"
| "split_sep (c # cs) =
     (if c = CHR ''/'' then [] # split_sep cs
      else (case split_sep cs of x # xs \<Rightarrow> (c # x) # xs | [] \<Rightarrow> [[c]]))"

definition clean_step :: "path \<Rightarrow> string \<Rightarrow> path" where
  "clean_step p e =
     (if e = [] \<or> e = ''.'' then p else if e = ''..'' then butlast p else p @ [e])"

definition Join :: "path \<Rightarrow> string list \<Rightarrow> path" where
  "Join p elems = foldl clean_step p (concat (map split_sep elems))"

definition Dir :: "path \<Rightarrow> path" where
  "Dir p = butlast p"

definition Base :: "path \<Rightarrow> string" where
  "Base p = (if p = [] then ''/'' else last p)"

definition cfgPath :: string where
  "cfgPath = ''.sht2''"

datatype error = Panic | OSError

text \<open>
  \<^verbatim>\<open>func objPath(id string) string { return filepath.Join(root, id[:2], id[2:4], id) }\<close>
  The slice expressions panic when the string has fewer than four bytes.
\<close>

definition objPath :: "path \<Rightarrow> string \<Rightarrow> error + path" where
  "objPath root ident =
     (if length ident < 4 then Inl Panic
      else Inr (Join root [take 2 ident, take 2 (drop 2 ident), ident]))"

text \<open>
  A 256-bit digest is an array of 32 bytes (\<^verbatim>\<open>h.Sum(nil)\<close> of a BLAKE3 hasher).
  BLAKE3 itself is a library outside the repository: the handlers take it as the
  parameter \<open>H\<close>, the function from the bytes written into the hasher to its digest.
\<close>

typedef digest = "{bs :: byte list. length bs = 32}"
  by (rule exI [of _ "replicate 32 0"]) simp

definition Sum :: "digest \<Rightarrow> byte list" where
  "Sum d = Rep_digest d"

subsection \<open>Filesystem and operating-system calls\<close>

text \<open>
  The filesystem holds regular files (path and content, \<^verbatim>\<open>info.Size()\<close> being the
  length of the content) and directories. Each call of package \<^verbatim>\<open>os\<close> fails
  where the state says so; failures that the state does not determine (permissions, a
  full disk, an I/O error) are the flags of the environment \<open>env\<close>, one per call the
  source checks. \<open>tmpSuffix\<close> is the random string \<^verbatim>\<open>os.CreateTemp\<close> puts in
  place of \<^verbatim>\<open>*\<close>.
\<close>

record fs =
  files :: "(path \<times> byte list) list"
  dirs :: "path set"

record env =
  tmpSuffix :: string
  createTemp_fails :: bool
  close_fails :: bool
  mkdirAll_fails :: bool
  walk_fails :: bool
  rename_fails :: bool
  open_fails :: bool
  fstat_fails :: bool

definition remove_file :: "path \<Rightarrow> fs \<Rightarrow> fs" where
  "remove_file p s = s\<lparr>files := filter (\<lambda>e. fst e \<noteq> p) (files s)\<rparr>"

definition write_file :: "path \<Rightarrow> byte list \<Rightarrow> fs \<Rightarrow> fs" where
  "write_file p c s = s\<lparr>files := (p, c) # filter (\<lambda>e. fst e \<noteq> p) (files s)\<rparr>"

text \<open>\<^verbatim>\<open>os.Stat(p)\<close> returns no error: something, a file or a directory, is at \<open>p\<close>.\<close>

definition Stat :: "fs \<Rightarrow> path \<Rightarrow> bool" where
  "Stat s p = (map_of (files s) p \<noteq> None \<or> p \<in> dirs s)"

text \<open>The path itself and every directory above it, outermost first.\<close>

definition ancestors :: "path \<Rightarrow> path list" where
  "ancestors p = map (\<lambda>k. take k p) [0..<Suc (length p)]"

text \<open>
  \<^verbatim>\<open>os.MkdirAll(p, 0755)\<close> creates \<open>p\<close> and the missing directories above it, and
  fails when a regular file is in the way. A failed call is modelled as leaving the
  state as it was.
\<close>

definition MkdirAll :: "env \<Rightarrow> path \<Rightarrow> fs \<Rightarrow> error + fs" where
  "MkdirAll env p s =
     (if mkdirAll_fails env \<or> list_ex (\<lambda>q. map_of (files s) q \<noteq> None) (ancestors p)
      then Inl OSError
      else Inr (s\<lparr>dirs := dirs s \<union> set (ancestors p)\<rparr>))"

text \<open>
  \<^verbatim>\<open>os.Rename(old, new)\<close> of a regular file: \<open>old\<close> must exist, \<open>new\<close> must not
  be a directory and the directory of \<open>new\<close> must exist; a file at \<open>new\<close> is replaced.
\<close>

definition Rename :: "env \<Rightarrow> path \<Rightarrow> path \<Rightarrow> fs \<Rightarrow> error + fs" where
  "Rename env old new s =
     (if rename_fails env then Inl OSError
      else case map_of (files s) old of
        None \<Rightarrow> Inl OSError
      | Some c \<Rightarrow>
          if new \<in> dirs s \<or> Dir new \<notin> dirs s then Inl OSError
          else Inr (write_file new c (remove_file old s)))"



subsection \<open>Quota accountant\<close>

text \<open>
  \<^verbatim>\<open>quotaConfig\<close>, without the fields \<^verbatim>\<open>MaxStorageGB\<close> and \<^verbatim>\<open>MaxUploadGB\<close>:
  the handlers read the two byte counts only.
\<close>

record quotaConfig =
  MaxStorageByte :: int64
  MaxUploadByte :: int64

definition under :: "path \<Rightarrow> path \<Rightarrow> bool" where
  "under root p = (take (length root) p = root)"

text \<open>
  \<^verbatim>\<open>diskUsageBytes(exclude)\<close>: \<^verbatim>\<open>filepath.WalkDir(root, ...)\<close> visits every entry
  below the root; directories are skipped, as are the excluded path and every entry
  whose base name is \<^verbatim>\<open>cfgPath\<close>; the sizes of the others are added up in an
  \<^verbatim>\<open>int64\<close>. The caller reads the total only when the walk returned no error.
\<close>

definition diskUsageBytes :: "env \<Rightarrow> path \<Rightarrow> fs \<Rightarrow> path \<Rightarrow> error + int64" where
  "diskUsageBytes env root s exclude =
     (if walk_fails env then Inl OSError
      else Inr (foldl (\<lambda>total (p, c).
                   if p = exclude \<or> Base p = cfgPath then total
                   else total + of_nat (length c))
                 0 (filter (\<lambda>(p, c). under root p) (files s))))"

subsection \<open>Requests and responses\<close>

text \<open>
  A request is what the handlers read of it. \<open>MediaType\<close> is the result of
  \<^verbatim>\<open>mime.ParseMediaType\<close> on the \<^verbatim>\<open>Content-Type\<close> header (\<open>None\<close> when it
  returns an error) and \<open>MultipartReader\<close> is what \<^verbatim>\<open>r.MultipartReader()\<close> and the
  successive calls of \<^verbatim>\<open>NextPart\<close> return, both being standard-library parsers.
  \<open>Body\<close> holds the bytes the client sends and \<open>BodyBroken\<close> says that the stream
  ends in a transport error instead of end-of-file. The request carries no conditional
  or range header.
\<close>

datatype stream_end = EOF | MaxBytesError | CopyError

record part =
  FileName :: string
  FormName :: string
  partData :: "byte list"
  partEnd :: stream_end

datatype next_part = NextPartError | NextPart part

datatype multipart_reader = NoMultipart | Multipart "next_part list"

record request =
  Method :: string
  URLPath :: string
  ContentType :: string
  MediaType :: "string option"
  Body :: "byte list"
  BodyBroken :: bool
  MultipartReader :: multipart_reader

datatype json =
    UploadOK (json_id: string) (json_size: int64) (json_deduped: bool)
  | LimitExceeded (json_error: string) (used_bytes: int64) (max_storage_bytes: int64)

text \<open>
  \<open>HttpError msg code\<close> is \<^verbatim>\<open>http.Error(w, msg, code)\<close>, \<open>HttpJSON code v\<close> a
  response of content type \<^verbatim>\<open>application/json\<close> encoding \<open>v\<close>,
  \<open>HttpContent etag body\<close> what \<^verbatim>\<open>http.ServeContent\<close> writes for a regular file
  under the \<^verbatim>\<open>ETag\<close> header set before, and \<open>HttpContentDir\<close> its outcome on a
  directory handle, which is left to the standard library.
\<close>

datatype response =
    HttpError string nat
  | HttpNotFound
  | HttpJSON nat json
  | HttpContent string "byte list"
  | HttpContentDir string
  | Panicked

fun status :: "response \<Rightarrow> nat option" where
  "status (HttpError msg code) = Some code"
| "status HttpNotFound = Some 404"
| "status (HttpJSON code v) = Some code"
| "status (HttpContent etag body) = Some 200"
| "status (HttpContentDir etag) = None"
| "status Panicked = None"

text \<open>The calls on the filesystem, the lock and the hasher's finalisation, in order.\<close>

datatype event =
    EvCreateTemp path
  | EvCopy path nat
  | EvClose path
  | EvHashSum
  | EvMkdirAll path
  | EvLock
  | EvStat path
  | EvWalkDir path
  | EvRename path path
  | EvUnlock
  | EvRemove path
  | EvOpen path
  | EvFStat path

subsection \<open>The upload handler\<close>

text \<open>
  \<^verbatim>\<open>http.MaxBytesReader(w, r.Body, n)\<close>: a negative limit counts as 0; a body of more
  than \<open>n\<close> bytes yields its first \<open>n\<close> bytes and then \<^verbatim>\<open>*http.MaxBytesError\<close>.
\<close>

definition MaxBytesReader :: "int64 \<Rightarrow> byte list \<Rightarrow> bool \<Rightarrow> byte list \<times> stream_end" where
  "MaxBytesReader n body broken =
     (let lim = nat (sint n)
      in if lim < length body then (take lim body, MaxBytesError)
         else (body, if broken then CopyError else EOF))"

text \<open>The loop over \<^verbatim>\<open>mr.NextPart()\<close> (lines 174 to 189).\<close>

fun find_file_part :: "next_part list \<Rightarrow> response + part option" where
  "find_file_part [] = Inr None"
| "find_file_part (NextPartError # rest) = Inl (HttpError ''invalid multipart body'' 400)"
| "find_file_part (NextPart p # rest) =
     (if FileName p \<noteq> [] \<or> FormName p = ''file'' then Inr (Some p)
      else find_file_part rest)"

text \<open>
  The choice of \<^verbatim>\<open>src\<close> (lines 158 to 198): the bytes \<^verbatim>\<open>io.Copy\<close> will read and
  how the stream ends, or the response of an early return.
\<close>

definition select_source :: "quotaConfig \<Rightarrow> request \<Rightarrow> response + (byte list \<times> stream_end)" where
  "select_source limits r =
     (let body = MaxBytesReader (MaxUploadByte limits) (Body r) (BodyBroken r)
      in if ContentType r \<noteq> [] then
           (case MediaType r of
              None \<Rightarrow> Inl (HttpError ''invalid content-type'' 400)
            | Some mediaType \<Rightarrow>
                if mediaType = ''multipart/form-data'' then
                  (case MultipartReader r of
                     NoMultipart \<Rightarrow> Inl (HttpError ''invalid multipart body'' 400)
                   | Multipart parts \<Rightarrow>
                       (case find_file_part parts of
                          Inl resp \<Rightarrow> Inl resp
                        | Inr None \<Rightarrow> Inl (HttpError ''multipart missing file part'' 400)
                        | Inr (Some p) \<Rightarrow> Inr (partData p, partEnd p)))
                else Inr body)
         else Inr body)"

text \<open>The section under \<^verbatim>\<open>quotaMu\<close> (lines 224 to 255).\<close>

definition publish ::
  "quotaConfig \<Rightarrow> env \<Rightarrow> path \<Rightarrow> fs \<Rightarrow> path \<Rightarrow> string \<Rightarrow> path \<Rightarrow> int64
   \<Rightarrow> response \<times> fs \<times> event list" where
  "publish limits env root s tmpName ident final n =
     (if Stat s final then
        (HttpJSON 200 (UploadOK ident n True), s, [EvLock, EvStat final, EvUnlock])
      else
        (case diskUsageBytes env root s tmpName of
           Inl e \<Rightarrow>
             (HttpError ''usage'' 500, s, [EvLock, EvStat final, EvWalkDir root, EvUnlock])
         | Inr used \<Rightarrow>
             if MaxStorageByte limits <s used + n then
               (HttpJSON 507
                  (LimitExceeded ''root storage limit exceeded'' used (MaxStorageByte limits)),
                s, [EvLock, EvStat final, EvWalkDir root, EvUnlock])
             else
               (case Rename env tmpName final s of
                  Inl e \<Rightarrow>
                    (HttpError ''rename'' 500, s,
                     [EvLock, EvStat final, EvWalkDir root, EvRename tmpName final, EvUnlock])
                | Inr s' \<Rightarrow>
                    (HttpJSON 200 (UploadOK ident n False), s',
                     [EvLock, EvStat final, EvWalkDir root, EvRename tmpName final,
                      EvUnlock]))))"

text \<open>Lines 158 to 255, once the staging file \<open>tmpName\<close> is open.\<close>

definition stage_and_publish ::
  "quotaConfig \<Rightarrow> (byte list \<Rightarrow> digest) \<Rightarrow> env \<Rightarrow> path \<Rightarrow> fs \<Rightarrow> path \<Rightarrow> request
   \<Rightarrow> response \<times> fs \<times> event list" where
  "stage_and_publish limits H env root s tmpName r =
     (case select_source limits r of
        Inl resp \<Rightarrow> (resp, s, [])
      | Inr (data, ending) \<Rightarrow>
          (let s1 = write_file tmpName data s;
               n = (of_nat (length data) :: int64);
               copied = [EvCopy tmpName (length data)]
           in case ending of
                MaxBytesError \<Rightarrow> (HttpError ''upload exceeds MAX_UPLOAD_GB'' 413, s1, copied)
              | CopyError \<Rightarrow> (HttpError ''copy'' 400, s1, copied)
              | EOF \<Rightarrow>
                  if close_fails env then
                    (HttpError ''close'' 500, s1, copied @ [EvClose tmpName])
                  else
                    (let ident = EncodeToString (Sum (H data));
                         staged = copied @ [EvClose tmpName, EvHashSum]
                     in case objPath root ident of
                          Inl e \<Rightarrow> (Panicked, s1, staged)
                        | Inr final \<Rightarrow>
                            (case MkdirAll env (Dir final) s1 of
                               Inl e \<Rightarrow>
                                 (HttpError ''mkdir'' 500, s1,
                                  staged @ [EvMkdirAll (Dir final)])
                             | Inr s2 \<Rightarrow>
                                 (case publish limits env root s2 tmpName ident final n of
                                    (resp, s3, tr) \<Rightarrow>
                                      (resp, s3,
                                       staged @ [EvMkdirAll (Dir final)] @ tr))))))"

text \<open>
  \<^verbatim>\<open>upload\<close>: \<^verbatim>\<open>os.CreateTemp(root, "up-*")\<close> opens a new file under a name that
  is not in use and fails otherwise; \<^verbatim>\<open>defer os.Remove(tmpName)\<close> runs on every
  return after that.
\<close>

definition tmpPath :: "env \<Rightarrow> path \<Rightarrow> path" where
  "tmpPath env root = root @ [''up-'' @ tmpSuffix env]"

definition upload ::
  "quotaConfig \<Rightarrow> (byte list \<Rightarrow> digest) \<Rightarrow> env \<Rightarrow> path \<Rightarrow> fs \<Rightarrow> request
   \<Rightarrow> response \<times> fs \<times> event list" where
  "upload limits H env root s r =
     (let tmpName = tmpPath env root
      in if createTemp_fails env \<or> Stat s tmpName then
           (HttpError ''tmp'' 500, s, [EvCreateTemp tmpName])
         else
           (case stage_and_publish limits H env root (write_file tmpName [] s) tmpName r of
              (resp, s', tr) \<Rightarrow>
                (resp, remove_file tmpName s', EvCreateTemp tmpName # tr @ [EvRemove tmpName])))"

subsection \<open>The retrieval handler\<close>





subsection \<open>Quantities the properties speak of\<close>

text \<open>
  The identifier of a payload; the usage as the sum, in natural numbers, of the sizes
  the walk counts; the objects of the store, which are the files at the path
  \<^const>\<open>objPath\<close> gives for their own name, and the bytes they hold.
\<close>

definition ident_of :: "(byte list \<Rightarrow> digest) \<Rightarrow> byte list \<Rightarrow> string" where
  "ident_of H b = EncodeToString (Sum (H b))"

definition counted :: "path \<Rightarrow> path \<Rightarrow> path \<Rightarrow> bool" where
  "counted root exclude p = (under root p \<and> p \<noteq> exclude \<and> Base p \<noteq> cfgPath)"

definition usage :: "path \<Rightarrow> path \<Rightarrow> fs \<Rightarrow> nat" where
  "usage root exclude s =
     sum_list (map (\<lambda>e. if counted root exclude (fst e) then length (snd e) else 0) (files s))"

definition is_object :: "path \<Rightarrow> path \<Rightarrow> bool" where
  "is_object root p = (p \<noteq> [] \<and> idRe_MatchString (last p) \<and> objPath root (last p) = Inr p)"

definition stored_bytes :: "path \<Rightarrow> fs \<Rightarrow> nat" where
  "stored_bytes root s =
     sum_list (map (\<lambda>e. if is_object root (fst e) then length (snd e) else 0) (files s))"

subsection \<open>Configurations and sample inputs\<close>

text \<open>
  \<^verbatim>\<open>defaultQuotaConfig\<close> (20 GiB of storage, 2 GiB per upload), and the inputs on which
  the theorems below are instantiated: a configuration of a few bytes, a hash that
  maps every payload to the all-zero digest, an environment in which no call fails, the
  default storage root, the empty store and requests without headers.
\<close>

definition gib :: int64 where
  "gib = 1024 * 1024 * 1024"

definition defaultQuotaConfig :: quotaConfig where
  "defaultQuotaConfig = \<lparr>MaxStorageByte = 20 * gib, MaxUploadByte = 2 * gib\<rparr>"

definition tiny_limits :: quotaConfig where
  "tiny_limits = \<lparr>MaxStorageByte = 8, MaxUploadByte = 4\<rparr>"

definition zero_hash :: "byte list \<Rightarrow> digest" where
  "zero_hash b = Abs_digest (replicate 32 0)"

definition calm :: env where
  "calm = \<lparr>tmpSuffix = ''1'', createTemp_fails = False, close_fails = False,
            mkdirAll_fails = False, walk_fails = False, rename_fails = False,
            open_fails = False, fstat_fails = False\<rparr>"

definition home :: path where
  "home = [''home'', ''sht2'']"

definition empty_store :: fs where
  "empty_store = \<lparr>files = [], dirs = {}\<rparr>"

definition raw_post :: "byte list \<Rightarrow> request" where
  "raw_post b = \<lparr>Method = ''POST'', URLPath = ''/'', ContentType = [], MediaType = None,
                  Body = b, BodyBroken = False, MultipartReader = NoMultipart\<rparr>"


definition all_A :: string where
  "all_A = replicate 43 (CHR ''A'')"

definition one_object :: fs where
  "one_object = \<lparr>files = [(home @ [''AA'', ''AA'', all_A], [1, 2, 3])],
                  dirs = set (ancestors (home @ [''AA'', ''AA'']))\<rparr>"

definition typed_post :: "string \<Rightarrow> string option \<Rightarrow> byte list \<Rightarrow> request" where
  "typed_post ct mt b = \<lparr>Method = ''POST'', URLPath = ''/'', ContentType = ct, MediaType = mt,
                          Body = b, BodyBroken = False, MultipartReader = NoMultipart\<rparr>"


section \<open>Properties of the identifier scheme\<close>

lemma sextet_mem: "sextet val k \<in> set encodeURL"
proof -
  have "drop_bit k val AND 0x3F \<le> (0x3F :: 64 word)"
    by (rule word_and_le1)
  then have "unat (drop_bit k val AND 0x3F) \<le> unat (0x3F :: 64 word)"
    by (simp add: word_le_nat_alt)
  then have "unat (drop_bit k val AND 0x3F) < length encodeURL"
    by (simp add: encodeURL_def)
  then show ?thesis
    unfolding sextet_def by (rule nth_mem)
qed

lemma encodeURL_all: "list_all idChar encodeURL"
  by (simp add: encodeURL_def idChar_def)

lemma encodeURL_idChar: "c \<in> set encodeURL \<Longrightarrow> idChar c"
  using encodeURL_all by (simp add: list_all_iff)



lemma EncodeToString_alphabet: "set (EncodeToString bs) \<subseteq> set encodeURL"
  by (induction bs rule: EncodeToString.induct) (simp_all add: Let_def sextet_mem)

lemma EncodeToString_length: "length (EncodeToString bs) = (8 * length bs + 5) div 6"
  by (induction bs rule: EncodeToString.induct) (simp_all add: Let_def)

lemma split_sep_plain: "CHR ''/'' \<notin> set s \<Longrightarrow> split_sep s = [s]"
  by (induction s) auto

lemma idChar_plain: "idChar c \<Longrightarrow> c \<noteq> CHR ''/'' \<and> c \<noteq> CHR ''.''"
  by (auto simp: idChar_def)

lemma Join_plain:
  assumes "\<forall>e \<in> set elems. e \<noteq> [] \<and> list_all idChar e"
  shows "Join p elems = p @ elems"
  using assms
proof (induction elems arbitrary: p)
  case Nil
  then show ?case by (simp add: Join_def)
next
  case (Cons e es)
  from Cons.prems have ne: "e \<noteq> []" and ch: "list_all idChar e" by simp_all
  from ch have nosep: "CHR ''/'' \<notin> set e"
    using idChar_plain by (auto simp: list_all_iff)
  from ch have "CHR ''.'' \<notin> set e"
    using idChar_plain by (auto simp: list_all_iff)
  then have nodot: "e \<noteq> ''.''" "e \<noteq> ''..''"
    by auto
  have step: "clean_step p e = p @ [e]"
    using ne nodot by (simp add: clean_step_def)
  have "Join p (e # es) = Join (clean_step p e) es"
    by (simp add: Join_def split_sep_plain [OF nosep])
  also have "\<dots> = (p @ [e]) @ es"
    using Cons.IH [of "p @ [e]"] Cons.prems step by simp
  finally show ?case by simp
qed

lemma objPath_valid:
  assumes "idRe_MatchString ident"
  shows "objPath root ident = Inr (root @ [take 2 ident, take 2 (drop 2 ident), ident])"
proof -
  from assms have len: "length ident = 43" and ch: "list_all idChar ident"
    by (simp_all add: idRe_MatchString_def)
  have "\<forall>e \<in> set [take 2 ident, take 2 (drop 2 ident), ident]. e \<noteq> [] \<and> list_all idChar e"
    using len ch by (auto simp: list_all_iff dest: in_set_takeD in_set_dropD)
  then show ?thesis
    using len by (simp add: objPath_def Join_plain)
qed

section \<open>Files, usage and 64-bit sums\<close>

lemma filter_absent: "map_of al p = None \<Longrightarrow> filter (\<lambda>e. fst e \<noteq> p) al = al"
  by (induction al) (auto split: if_splits)

lemma map_of_filter_ne:
  "map_of (filter (\<lambda>e. fst e \<noteq> p) al) q = (if q = p then None else map_of al q)"
  by (induction al) auto

lemma files_write_file [simp]:
  "files (write_file p c s) = (p, c) # filter (\<lambda>e. fst e \<noteq> p) (files s)"
  by (simp add: write_file_def)

lemma dirs_write_file [simp]: "dirs (write_file p c s) = dirs s"
  by (simp add: write_file_def)

lemma files_remove_file [simp]:
  "files (remove_file p s) = filter (\<lambda>e. fst e \<noteq> p) (files s)"
  by (simp add: remove_file_def)

lemma dirs_remove_file [simp]: "dirs (remove_file p s) = dirs s"
  by (simp add: remove_file_def)

lemma Sum_length: "length (Sum d) = 32"
  using Rep_digest [of d] by (simp add: Sum_def)

lemma ident_of_length: "length (ident_of H b) = 43"
  by (simp add: ident_of_def EncodeToString_length Sum_length)

lemma ident_of_chars: "list_all idChar (ident_of H b)"
  using EncodeToString_alphabet [of "Sum (H b)"] encodeURL_idChar
  by (auto simp: ident_of_def list_all_iff)

lemma ident_of_valid: "idRe_MatchString (ident_of H b)"
  by (simp add: idRe_MatchString_def ident_of_length ident_of_chars)

lemma foldl_usage:
  "foldl (\<lambda>total (p, c). if p = exclude \<or> Base p = cfgPath then total
                           else total + of_nat (length c))
         acc (filter (\<lambda>(p, c). under root p) al)
   = (acc + of_nat (sum_list (map (\<lambda>e. if counted root exclude (fst e) then length (snd e) else 0) al)) :: int64)"
  by (induction al arbitrary: acc) (auto simp: counted_def add.assoc)

lemma diskUsageBytes_usage:
  "\<not> walk_fails env \<Longrightarrow> diskUsageBytes env root s exclude = Inr (of_nat (usage root exclude s))"
  using foldl_usage [of exclude 0 root "files s"]
  by (simp add: diskUsageBytes_def usage_def)

lemma usage_write_file_excluded [simp]:
  "usage root p (write_file p c s) = usage root p s"
proof -
  have "\<And>al. sum_list (map (\<lambda>e. if counted root p (fst e) then length (snd e) else 0)
                (filter (\<lambda>e. fst e \<noteq> p) al))
        = sum_list (map (\<lambda>e. if counted root p (fst e) then length (snd e) else 0) al)"
    subgoal for al by (induction al) (auto simp: counted_def)
    done
  then show ?thesis by (simp add: usage_def counted_def)
qed

lemma usage_dirs_update [simp]: "usage root p (s\<lparr>dirs := d\<rparr>) = usage root p s"
  by (simp add: usage_def)



section \<open>Runs of the upload handler\<close>

lemma Stat_write_file: "Stat (write_file p c s) q = (q = p \<or> Stat s q)"
  by (auto simp: Stat_def map_of_filter_ne)

lemma in_ancestors: "p \<in> set (ancestors q) \<longleftrightarrow> (\<exists>k. k \<le> length q \<and> p = take k q)"
  unfolding ancestors_def set_map set_upt by (auto simp: less_Suc_eq_le)

lemma tmpPath_not_ancestor:
  assumes fin: "objPath root (ident_of H b) = Inr final"
  shows "tmpPath env root \<notin> set (ancestors (Dir final))"
    and "final \<notin> set (ancestors (Dir final))"
    and "tmpPath env root \<noteq> final"
    and "Dir final \<in> set (ancestors (Dir final))"
proof -
  let ?i = "ident_of H b"
  have final: "final = root @ [take 2 ?i, take 2 (drop 2 ?i), ?i]"
    using fin objPath_valid [OF ident_of_valid, of root H b] by simp
  then have dir: "Dir final = root @ [take 2 ?i, take 2 (drop 2 ?i)]"
    by (simp add: Dir_def butlast_append)
  have len2: "length (take 2 ?i) = 2"
    by (simp add: ident_of_length)
  show "tmpPath env root \<notin> set (ancestors (Dir final))"
  proof
    assume "tmpPath env root \<in> set (ancestors (Dir final))"
    then obtain k where k: "tmpPath env root = take k (root @ [take 2 ?i, take 2 (drop 2 ?i)])"
      by (auto simp: in_ancestors dir simp del: take_append)
    then have "length (tmpPath env root) = min k (length root + 2)" by simp
    then have kk: "k = length root + 1" by (simp add: tmpPath_def min_def split: if_splits)
    from k have "''up-'' @ tmpSuffix env = take 2 ?i"
      by (simp add: kk tmpPath_def)
    then have "length (''up-'' @ tmpSuffix env) = 2" using len2 by simp
    then show False by simp
  qed
  show "final \<notin> set (ancestors (Dir final))"
  proof
    assume "final \<in> set (ancestors (Dir final))"
    then obtain k where "final = take k (Dir final)" by (auto simp: in_ancestors)
    then have "length final = length (take k (Dir final))" by simp
    then have "length final \<le> length (Dir final)" by simp
    then show False by (simp add: Dir_def final)
  qed
  show "tmpPath env root \<noteq> final"
    by (simp add: final tmpPath_def)
  show "Dir final \<in> set (ancestors (Dir final))"
    unfolding in_ancestors by (rule exI [of _ "length (Dir final)"]) simp
qed

lemma blocked_write_tmp:
  assumes "tmp \<notin> set (ancestors d)"
  shows "list_ex (\<lambda>q. map_of (files (write_file tmp c s)) q \<noteq> None) (ancestors d)
         = list_ex (\<lambda>q. map_of (files s) q \<noteq> None) (ancestors d)"
  using assms by (auto simp: list_ex_iff map_of_filter_ne)

lemma write_write_same: "write_file p c (write_file p c' s) = write_file p c s"
  by (simp add: write_file_def)

lemma remove_write_absent:
  "map_of (files s) p = None \<Longrightarrow> remove_file p (write_file p c s) = s"
  by (simp add: remove_file_def write_file_def filter_absent)

lemma filter_filter_ne:
  "filter (\<lambda>e. fst e \<noteq> p) (filter (\<lambda>e. fst e \<noteq> q) al) = filter (\<lambda>e. fst e \<noteq> q) (filter (\<lambda>e. fst e \<noteq> p) al)"
  by (induction al) auto

text \<open>The state after a staged upload, before the decision under the lock.\<close>

lemma upload_staged:
  assumes ct: "\<not> createTemp_fails env"
    and fresh: "\<not> Stat s (tmpPath env root)"
    and src: "select_source limits r = Inr (b, EOF)"
    and cl: "\<not> close_fails env"
    and fin: "objPath root (ident_of H b) = Inr final"
    and mk: "\<not> mkdirAll_fails env"
            "\<not> list_ex (\<lambda>q. map_of (files s) q \<noteq> None) (ancestors (Dir final))"
  shows "upload limits H env root s r =
    (case publish limits env root
            (write_file (tmpPath env root) b (s\<lparr>dirs := dirs s \<union> set (ancestors (Dir final))\<rparr>))
            (tmpPath env root) (ident_of H b) final (of_nat (length b)) of
       (resp, s3, tr) \<Rightarrow>
         (resp, remove_file (tmpPath env root) s3,
          [EvCreateTemp (tmpPath env root), EvCopy (tmpPath env root) (length b),
           EvClose (tmpPath env root), EvHashSum, EvMkdirAll (Dir final)]
          @ tr @ [EvRemove (tmpPath env root)]))"
proof -
  let ?tmp = "tmpPath env root"
  have na: "?tmp \<notin> set (ancestors (Dir final))"
    by (rule tmpPath_not_ancestor(1) [OF fin])
  have mk': "MkdirAll env (Dir final) (write_file ?tmp b (write_file ?tmp [] s))
             = Inr (write_file ?tmp b (s\<lparr>dirs := dirs s \<union> set (ancestors (Dir final))\<rparr>))"
  proof -
    have blk: "\<not> list_ex (\<lambda>q. map_of (files (write_file ?tmp b s)) q \<noteq> None)
                 (ancestors (Dir final))"
      by (simp only: blocked_write_tmp [OF na] mk(2) not_False_eq_True)
    have "MkdirAll env (Dir final) (write_file ?tmp b s)
          = Inr ((write_file ?tmp b s)\<lparr>dirs := dirs (write_file ?tmp b s) \<union> set (ancestors (Dir final))\<rparr>)"
      unfolding MkdirAll_def using mk(1) blk by (simp only: simp_thms if_False)
    then show ?thesis
      by (simp add: write_write_same write_file_def)
  qed
  show ?thesis
    using ct fresh src cl fin mk'
    by (simp add: upload_def stage_and_publish_def Let_def ident_of_def [symmetric]
        split: prod.splits)
qed

lemma Stat_dirs_update: "Stat (s\<lparr>dirs := d\<rparr>) q = (map_of (files s) q \<noteq> None \<or> q \<in> d)"
  by (simp add: Stat_def)

text \<open>Every outcome of an upload that reaches the lock.\<close>

lemma upload_outcome:
  assumes ct: "\<not> createTemp_fails env"
    and fresh: "\<not> Stat s (tmpPath env root)"
    and src: "select_source limits r = Inr (b, EOF)"
    and cl: "\<not> close_fails env"
    and fin: "objPath root (ident_of H b) = Inr final"
    and mk: "\<not> mkdirAll_fails env"
            "\<not> list_ex (\<lambda>q. map_of (files s) q \<noteq> None) (ancestors (Dir final))"
  shows "upload limits H env root s r =
    (let tmp = tmpPath env root;
         ident = ident_of H b;
         n = (of_nat (length b) :: int64);
         used = (of_nat (usage root tmp s) :: int64);
         s2 = s\<lparr>dirs := dirs s \<union> set (ancestors (Dir final))\<rparr>;
         staged = [EvCreateTemp tmp, EvCopy tmp (length b), EvClose tmp, EvHashSum,
                   EvMkdirAll (Dir final), EvLock, EvStat final]
     in if Stat s final then
          (HttpJSON 200 (UploadOK ident n True), s2, staged @ [EvUnlock, EvRemove tmp])
        else if walk_fails env then
          (HttpError ''usage'' 500, s2, staged @ [EvWalkDir root, EvUnlock, EvRemove tmp])
        else if MaxStorageByte limits <s used + n then
          (HttpJSON 507
             (LimitExceeded ''root storage limit exceeded'' used (MaxStorageByte limits)),
           s2, staged @ [EvWalkDir root, EvUnlock, EvRemove tmp])
        else if rename_fails env then
          (HttpError ''rename'' 500, s2,
           staged @ [EvWalkDir root, EvRename tmp final, EvUnlock, EvRemove tmp])
        else
          (HttpJSON 200 (UploadOK ident n False), s2\<lparr>files := (final, b) # files s\<rparr>,
           staged @ [EvWalkDir root, EvRename tmp final, EvUnlock, EvRemove tmp]))"
proof -
  let ?tmp = "tmpPath env root"
  let ?d = "dirs s \<union> set (ancestors (Dir final))"
  let ?s1 = "write_file ?tmp b (s\<lparr>dirs := ?d\<rparr>)"
  note sep = tmpPath_not_ancestor [OF fin]
  from fresh have tmp_absent: "map_of (files s) ?tmp = None" and tmp_nodir: "?tmp \<notin> dirs s"
    by (simp_all add: Stat_def)
  have st: "Stat ?s1 final = Stat s final"
    using sep(2,3) by (auto simp: Stat_write_file Stat_def map_of_filter_ne)
  have us: "usage root ?tmp ?s1 = usage root ?tmp s"
    by simp
  have rm: "remove_file ?tmp ?s1 = s\<lparr>dirs := ?d\<rparr>"
    using tmp_absent by (simp add: remove_file_def write_file_def filter_absent)
  have look: "map_of (files ?s1) ?tmp = Some b"
    by simp
  have rn: "\<not> Stat s final \<Longrightarrow> \<not> rename_fails env \<Longrightarrow>
            Rename env ?tmp final ?s1 = Inr (write_file final b (remove_file ?tmp ?s1))"
    using sep(2,4) look by (simp add: Rename_def Stat_def map_of_filter_ne)
  have pub: "\<not> Stat s final \<Longrightarrow>
             remove_file ?tmp (write_file final b (remove_file ?tmp ?s1))
             = s\<lparr>dirs := ?d, files := (final, b) # files s\<rparr>"
    using tmp_absent sep(3) sep(3) [symmetric]
    by (simp add: rm) (simp add: remove_file_def write_file_def filter_absent Stat_def)
  note staged = upload_staged [OF ct fresh src cl fin mk]
  show ?thesis
  proof (cases "Stat s final")
    case True
    then show ?thesis
      unfolding staged by (simp add: publish_def st rm Let_def)
  next
    case nostat: False
    show ?thesis
    proof (cases "walk_fails env")
      case True
      then show ?thesis
        unfolding staged using nostat
        by (simp add: publish_def st rm Let_def diskUsageBytes_def)
    next
      case walk: False
      have du: "diskUsageBytes env root ?s1 ?tmp = Inr (of_nat (usage root ?tmp s))"
        using diskUsageBytes_usage [OF walk, of root ?s1 ?tmp] by (simp only: us)
      show ?thesis
      proof (cases "MaxStorageByte limits <s of_nat (usage root ?tmp s) + of_nat (length b)")
        case True
        then show ?thesis
          unfolding staged using nostat walk
          by (simp add: publish_def st rm Let_def du del: files_write_file)
      next
        case fits: False
        show ?thesis
        proof (cases "rename_fails env")
          case True
          then show ?thesis
            unfolding staged using nostat walk fits
            by (simp add: publish_def st rm Let_def du Rename_def del: files_write_file)
        next
          case False
          then show ?thesis
            unfolding staged using nostat walk fits
            by (simp add: publish_def st Let_def du rn pub del: files_write_file)
        qed
      qed
    qed
  qed
qed

lemma find_file_part_Inl:
  "find_file_part ps = Inl e \<Longrightarrow> e = HttpError ''invalid multipart body'' 400"
  by (induction ps rule: find_file_part.induct) (auto split: if_splits)

lemma select_source_Inl:
  assumes "select_source limits r = Inl e"
  shows "e = HttpError ''invalid content-type'' 400
       \<or> e = HttpError ''invalid multipart body'' 400
       \<or> e = HttpError ''multipart missing file part'' 400"
  using assms
  by (auto simp: select_source_def Let_def
      split: if_splits option.splits multipart_reader.splits sum.splits
      dest: find_file_part_Inl)

text \<open>An upload either reaches the lock or returns early, leaving the state as it was.\<close>

lemma upload_early_or_staged:
  assumes up: "upload limits H env root s r = (resp, s', tr)"
  shows "(s' = s \<and> EvLock \<notin> set tr \<and> status resp \<noteq> Some 200 \<and> status resp \<noteq> Some 507
          \<and> EvWalkDir root \<notin> set tr \<and> (\<forall>p q. EvRename p q \<notin> set tr))
       \<or> (\<exists>b final. \<not> createTemp_fails env \<and> \<not> Stat s (tmpPath env root)
            \<and> select_source limits r = Inr (b, EOF) \<and> \<not> close_fails env
            \<and> objPath root (ident_of H b) = Inr final \<and> \<not> mkdirAll_fails env
            \<and> \<not> list_ex (\<lambda>q. map_of (files s) q \<noteq> None) (ancestors (Dir final)))"
proof (cases "createTemp_fails env \<or> Stat s (tmpPath env root)")
  case True
  then show ?thesis using up by (auto simp: upload_def Let_def)
next
  case ok: False
  let ?tmp = "tmpPath env root"
  from ok have absent: "map_of (files s) ?tmp = None" by (simp add: Stat_def)
  have rm0: "remove_file ?tmp (write_file ?tmp [] s) = s"
    by (rule remove_write_absent [OF absent])
  have rm1: "\<And>c. remove_file ?tmp (write_file ?tmp c (write_file ?tmp [] s)) = s"
    by (simp add: write_write_same remove_write_absent [OF absent])
  show ?thesis
  proof (cases "select_source limits r")
    case (Inl e)
    have "status e \<noteq> Some 200 \<and> status e \<noteq> Some 507"
      using select_source_Inl [OF Inl] by auto
    then show ?thesis
      using up ok Inl by (auto simp: upload_def stage_and_publish_def Let_def rm0)
  next
    case (Inr src)
    obtain b ending where src: "src = (b, ending)" by (cases src)
    show ?thesis
    proof (cases "ending = EOF \<and> \<not> close_fails env")
      case False
      then show ?thesis
        using up ok Inr src
        by (cases ending)
           (auto simp: upload_def stage_and_publish_def Let_def rm1 simp del: files_write_file)
    next
      case True
      obtain final where fin: "objPath root (ident_of H b) = Inr final"
        using objPath_valid [OF ident_of_valid] by blast
      have na: "?tmp \<notin> set (ancestors (Dir final))"
        by (rule tmpPath_not_ancestor(1) [OF fin])
      show ?thesis
      proof (cases "mkdirAll_fails env
                    \<or> list_ex (\<lambda>q. map_of (files s) q \<noteq> None) (ancestors (Dir final))")
        case False
        then show ?thesis using ok True Inr src fin by auto
      next
        case blocked: True
        then have "mkdirAll_fails env
                   \<or> list_ex (\<lambda>q. map_of (files (write_file ?tmp b s)) q \<noteq> None)
                        (ancestors (Dir final))"
          by (simp only: blocked_write_tmp [OF na])
        then have "MkdirAll env (Dir final) (write_file ?tmp b (write_file ?tmp [] s))
                   = Inl OSError"
          unfolding MkdirAll_def write_write_same by (simp only: if_True)
        then show ?thesis
          using up ok True Inr src fin
          by (auto simp: upload_def stage_and_publish_def Let_def rm1
              ident_of_def [symmetric] simp del: files_write_file)
      qed
    qed
  qed
qed

text \<open>What a trace or a response tells about the run that produced it.\<close>

lemma reached_lock:
  assumes up: "upload limits H env root s r = (resp, s', tr)"
    and seen: "EvLock \<in> set tr \<or> status resp = Some 200 \<or> status resp = Some 507
               \<or> EvWalkDir root \<in> set tr \<or> s' \<noteq> s"
  obtains b final where
    "\<not> createTemp_fails env" "\<not> Stat s (tmpPath env root)"
    "select_source limits r = Inr (b, EOF)" "\<not> close_fails env"
    "objPath root (ident_of H b) = Inr final" "\<not> mkdirAll_fails env"
    "\<not> list_ex (\<lambda>q. map_of (files s) q \<noteq> None) (ancestors (Dir final))"
  using upload_early_or_staged [OF up] seen by blast






lemma stored_bytes_dirs_update [simp]: "stored_bytes root (s\<lparr>dirs := d\<rparr>) = stored_bytes root s"
  by (simp add: stored_bytes_def)



lemma upload_source_error:
  assumes ct: "\<not> createTemp_fails env" and fresh: "\<not> Stat s (tmpPath env root)"
    and src: "select_source limits r = Inl e"
  shows "upload limits H env root s r
         = (e, s, [EvCreateTemp (tmpPath env root), EvRemove (tmpPath env root)])"
proof -
  from fresh have "map_of (files s) (tmpPath env root) = None"
    by (simp add: Stat_def)
  then have "remove_file (tmpPath env root) (write_file (tmpPath env root) [] s) = s"
    by (rule remove_write_absent)
  then show ?thesis
    using ct fresh src by (simp add: upload_def stage_and_publish_def Let_def)
qed


section \<open>The handlers on the sample inputs\<close>

lemma ident_zero_hash: "ident_of zero_hash b = all_A"
  by (simp add: ident_of_def Sum_def zero_hash_def Abs_digest_inverse sextet_def encodeURL_def
      numeral_eq_Suc all_A_def)

lemma all_A_valid: "idRe_MatchString all_A"
  by (simp add: idRe_MatchString_def all_A_def idChar_def list_all_iff)

lemma objPath_all_A: "objPath home all_A = Inr (home @ [''AA'', ''AA'', all_A])"
  using objPath_valid [OF all_A_valid, of home]
  by (simp add: all_A_def numeral_eq_Suc)


lemma sample_upload_again:
  "upload defaultQuotaConfig zero_hash calm home one_object (raw_post [1, 2, 3]) =
     (HttpJSON 200 (UploadOK all_A 3 True), one_object,
      [EvCreateTemp (home @ [''up-1'']), EvCopy (home @ [''up-1'']) 3,
       EvClose (home @ [''up-1'']), EvHashSum, EvMkdirAll (home @ [''AA'', ''AA'']),
       EvLock, EvStat (home @ [''AA'', ''AA'', all_A]), EvUnlock,
       EvRemove (home @ [''up-1''])])"
proof -
  let ?final = "home @ [''AA'', ''AA'', all_A]"
  have src: "select_source defaultQuotaConfig (raw_post [1, 2, 3]) = Inr ([1, 2, 3], EOF)"
    by (simp add: select_source_def raw_post_def MaxBytesReader_def defaultQuotaConfig_def
        gib_def Let_def)
  have fin: "objPath home (ident_of zero_hash [1, 2, 3]) = Inr ?final"
    by (simp add: ident_zero_hash objPath_all_A)
  have ok: "\<not> createTemp_fails calm" "\<not> close_fails calm" "\<not> mkdirAll_fails calm"
    by (simp_all add: calm_def)
  have dir: "Dir ?final = home @ [''AA'', ''AA'']"
    by (simp add: Dir_def butlast_append)
  have fresh: "\<not> Stat one_object (tmpPath calm home)"
    using tmpPath_not_ancestor(1,3) [OF fin, of calm]
    by (simp add: Stat_def one_object_def dir)
  have free: "\<not> list_ex (\<lambda>q. map_of (files one_object) q \<noteq> None) (ancestors (Dir ?final))"
    using tmpPath_not_ancestor(2) [OF fin]
    by (auto simp: list_ex_iff one_object_def)
  have there: "Stat one_object ?final"
    by (simp add: Stat_def one_object_def)
  show ?thesis
    unfolding upload_outcome [OF ok(1) fresh src ok(2) fin ok(3) free]
    using there
    by (simp add: Let_def ident_zero_hash dir tmpPath_def calm_def) (simp add: one_object_def)
qed









lemma sample_unparsable:
  "upload tiny_limits zero_hash calm home empty_store (typed_post ''text/'' None [1, 2, 3, 4, 5])
   = (HttpError ''invalid content-type'' 400, empty_store,
      [EvCreateTemp (home @ [''up-1'']), EvRemove (home @ [''up-1''])])"
proof -
  have ct: "\<not> createTemp_fails calm"
    by (simp add: calm_def)
  have fresh: "\<not> Stat empty_store (tmpPath calm home)"
    by (simp add: Stat_def empty_store_def)
  have src: "select_source tiny_limits (typed_post ''text/'' None [1, 2, 3, 4, 5])
             = Inl (HttpError ''invalid content-type'' 400)"
    by (simp add: select_source_def typed_post_def Let_def)
  show ?thesis
    unfolding upload_source_error [OF ct fresh src] by (simp add: tmpPath_def calm_def)
qed

section \<open>The identifier of an upload\<close>



section \<open>Round trip\<close>



section \<open>The quota check\<close>



section \<open>The storage ceiling\<close>



section \<open>The storage path of an identifier\<close>

text \<open>
  Claim C5, as the code has it: for every valid 43-character identifier the storage
  path is the storage root followed by the elements \<^verbatim>\<open>id[0:2]\<close> and
  \<^verbatim>\<open>id[2:4]\<close> and, as the final element, the whole identifier (all 43 characters,
  not only the characters after the fourth).
\<close>

theorem objPath_layout:
  "idRe_MatchString ident \<Longrightarrow>
   objPath root ident = Inr (root @ [take 2 ident, take 2 (drop 2 ident), ident])"
  by (rule objPath_valid)

theorem objPath_layout_witness:
  "idRe_MatchString all_A \<and>
   objPath home all_A = Inr (home @ [take 2 all_A, take 2 (drop 2 all_A), all_A])"
  using objPath_layout [OF all_A_valid, of home] all_A_valid by simp

text \<open>
  Claim C5 as the specification words it, with \<^verbatim>\<open>id[4:43]\<close> as the final element,
  fails on the identifier of 43 letters \<^verbatim>\<open>A\<close>.
\<close>

theorem objPath_leaf_counterexample:
  "idRe_MatchString all_A \<and>
   objPath home all_A \<noteq> Inr (home @ [take 2 all_A, take 2 (drop 2 all_A), drop 4 all_A])"
proof -
  have "length (drop 4 all_A) \<noteq> length all_A"
    by (simp add: all_A_def)
  then have "drop 4 all_A \<noteq> all_A"
    by metis
  then show ?thesis
    using objPath_valid [OF all_A_valid, of home] all_A_valid by simp
qed

section \<open>Deduplication\<close>

text \<open>
  Claim C6: when an upload has staged its payload \<open>b\<close>, reaches the section under the
  lock and a file is already at the target path of the identifier of \<open>b\<close>, the
  response is status 200 with the JSON value of that identifier, the size of \<open>b\<close> and
  \<^verbatim>\<open>deduped: true\<close>; no rename is made, and the file at the target path, like every
  other file, is as it was.
\<close>

theorem duplicate_upload_short_circuits:
  assumes up: "upload limits H env root s r = (resp, s', tr)"
    and src: "select_source limits r = Inr (b, EOF)"
    and gate: "EvLock \<in> set tr"
    and fin: "objPath root (ident_of H b) = Inr final"
    and there: "map_of (files s) final = Some c"
  shows "resp = HttpJSON 200 (UploadOK (ident_of H b) (of_nat (length b)) True)
       \<and> (\<forall>p q. EvRename p q \<notin> set tr)
       \<and> map_of (files s') final = Some c
       \<and> files s' = files s"
proof -
  from gate have "EvLock \<in> set tr \<or> status resp = Some 200 \<or> status resp = Some 507
                  \<or> EvWalkDir root \<in> set tr \<or> s' \<noteq> s"
    by simp
  with up obtain b' final' where
    pre: "\<not> createTemp_fails env" "\<not> Stat s (tmpPath env root)"
      "select_source limits r = Inr (b', EOF)" "\<not> close_fails env"
      "objPath root (ident_of H b') = Inr final'" "\<not> mkdirAll_fails env"
      "\<not> list_ex (\<lambda>q. map_of (files s) q \<noteq> None) (ancestors (Dir final'))"
    by (rule reached_lock)
  from pre(3) src have b: "b' = b" by simp
  with pre(5) fin have f: "final' = final" by simp
  from there have st: "Stat s final" by (simp add: Stat_def)
  show ?thesis
    using up st there unfolding upload_outcome [OF pre] b f
    by (auto simp: Let_def)
qed

theorem duplicate_upload_short_circuits_witness:
  "select_source defaultQuotaConfig (raw_post [1, 2, 3]) = Inr ([1, 2, 3], EOF)
   \<and> EvLock \<in> set (snd (snd (upload defaultQuotaConfig zero_hash calm home one_object
                                 (raw_post [1, 2, 3]))))
   \<and> objPath home (ident_of zero_hash [1, 2, 3]) = Inr (home @ [''AA'', ''AA'', all_A])
   \<and> map_of (files one_object) (home @ [''AA'', ''AA'', all_A]) = Some [1, 2, 3]
   \<and> fst (upload defaultQuotaConfig zero_hash calm home one_object (raw_post [1, 2, 3]))
       = HttpJSON 200 (UploadOK (ident_of zero_hash [1, 2, 3]) (of_nat (length [1, 2, 3 :: byte])) True)
   \<and> (\<forall>p q. EvRename p q \<notin> set (snd (snd (upload defaultQuotaConfig zero_hash calm home
                                               one_object (raw_post [1, 2, 3])))))
   \<and> map_of (files (fst (snd (upload defaultQuotaConfig zero_hash calm home one_object
                                 (raw_post [1, 2, 3])))))
        (home @ [''AA'', ''AA'', all_A]) = Some [1, 2, 3]
   \<and> files (fst (snd (upload defaultQuotaConfig zero_hash calm home one_object
                         (raw_post [1, 2, 3])))) = files one_object"
proof -
  let ?u = "upload defaultQuotaConfig zero_hash calm home one_object (raw_post [1, 2, 3])"
  have up: "?u = (fst ?u, fst (snd ?u), snd (snd ?u))"
    by simp
  have src: "select_source defaultQuotaConfig (raw_post [1, 2, 3]) = Inr ([1, 2, 3], EOF)"
    by (simp add: select_source_def raw_post_def MaxBytesReader_def defaultQuotaConfig_def
        gib_def Let_def)
  have gate: "EvLock \<in> set (snd (snd ?u))"
    by (simp add: sample_upload_again)
  have fin: "objPath home (ident_of zero_hash [1, 2, 3]) = Inr (home @ [''AA'', ''AA'', all_A])"
    by (simp add: ident_zero_hash objPath_all_A)
  have there: "map_of (files one_object) (home @ [''AA'', ''AA'', all_A]) = Some [1, 2, 3]"
    by (simp add: one_object_def)
  from duplicate_upload_short_circuits [OF up src gate fin there] src gate fin there
  show ?thesis
    by blast
qed

section \<open>Retrieval of a malformed identifier\<close>



section \<open>Oversize bodies\<close>




section \<open>Unparsable media types\<close>

text \<open>
  Claim C9, as the code has it: for a request with a non-empty \<^verbatim>\<open>Content-Type\<close>
  header whose media type does not parse, the handler first creates the staging file
  (when that fails the answer is 500); it then answers 400 without reading the body:
  nothing is copied, and the only other call on the filesystem is the removal of the
  staging file, which leaves the state as it was before the request.
\<close>

theorem unparsable_content_type:
  assumes "ContentType r \<noteq> []" and "MediaType r = None"
  shows "upload limits H env root s r =
     (if createTemp_fails env \<or> Stat s (tmpPath env root) then
        (HttpError ''tmp'' 500, s, [EvCreateTemp (tmpPath env root)])
      else
        (HttpError ''invalid content-type'' 400, s,
         [EvCreateTemp (tmpPath env root), EvRemove (tmpPath env root)]))"
proof (cases "createTemp_fails env \<or> Stat s (tmpPath env root)")
  case True
  then show ?thesis
    by (auto simp: upload_def Let_def)
next
  case False
  have "select_source limits r = Inl (HttpError ''invalid content-type'' 400)"
    using assms by (simp add: select_source_def Let_def)
  with False show ?thesis
    by (simp add: upload_source_error)
qed

theorem unparsable_content_type_witness:
  "ContentType (typed_post ''text/'' None [1, 2, 3]) \<noteq> []
   \<and> MediaType (typed_post ''text/'' None [1, 2, 3]) = None
   \<and> \<not> (createTemp_fails calm \<or> Stat empty_store (tmpPath calm home))
   \<and> upload defaultQuotaConfig zero_hash calm home empty_store (typed_post ''text/'' None [1, 2, 3])
       = (HttpError ''invalid content-type'' 400, empty_store,
          [EvCreateTemp (tmpPath calm home), EvRemove (tmpPath calm home)])"
proof -
  have ct: "ContentType (typed_post ''text/'' None [1, 2, 3]) \<noteq> []"
    and mt: "MediaType (typed_post ''text/'' None [1, 2, 3]) = None"
    by (simp_all add: typed_post_def)
  have ok: "\<not> (createTemp_fails calm \<or> Stat empty_store (tmpPath calm home))"
    by (simp add: calm_def Stat_def empty_store_def)
  from unparsable_content_type [OF ct mt, where limits = defaultQuotaConfig and H = zero_hash
      and env = calm and root = home and s = empty_store] ok
  have "upload defaultQuotaConfig zero_hash calm home empty_store (typed_post ''text/'' None [1, 2, 3])
       = (HttpError ''invalid content-type'' 400, empty_store,
          [EvCreateTemp (tmpPath calm home), EvRemove (tmpPath calm home)])"
    by (simp only: if_False)
  with ct mt ok show ?thesis
    by blast
qed

text \<open>
  Claim C9 as the specification words it, with the answer given before any staging
  file is created, fails: the trace of the request starts with the creation of the
  staging file.
\<close>

theorem staging_precedes_content_type_counterexample:
  "ContentType (typed_post ''text/'' None [1, 2, 3, 4, 5]) \<noteq> []
   \<and> MediaType (typed_post ''text/'' None [1, 2, 3, 4, 5]) = None
   \<and> fst (upload tiny_limits zero_hash calm home empty_store
            (typed_post ''text/'' None [1, 2, 3, 4, 5]))
       = HttpError ''invalid content-type'' 400
   \<and> snd (snd (upload tiny_limits zero_hash calm home empty_store
                 (typed_post ''text/'' None [1, 2, 3, 4, 5])))
       = [EvCreateTemp (home @ [''up-1'']), EvRemove (home @ [''up-1''])]"
  by (simp add: sample_unparsable) (simp add: typed_post_def)

section \<open>Shard directories\<close>



end
